theory Spec2Isabelle
  imports Complex_Main
begin

section \<open>The tabular Q-learning agent of \<^verbatim>\<open>lab/agents/q_learning_agent.py\<close>\<close>

text \<open>
  The class \<^verbatim>\<open>QLearningAgent\<close> is embedded as a record of its attributes and one HOL
  function per method. Python exceptions are values of the type \<open>error\<close>; a method that
  can raise returns a sum with \<open>Inl\<close> for the exception. Floating-point numbers are
  modelled as the reals they approximate, Python's unbounded integers as \<open>int\<close>.
\<close>

subsection \<open>Exceptions\<close>

text \<open>
  The source raises nothing by itself: every exception comes from the array library or
  from the attribute lookup of the interpreter.
\<close>

datatype error = ValueError | IndexError | AttributeError | OverflowError | MemoryError

subsection \<open>The array primitives used by the agent\<close>

text \<open>
  The array library addresses its arrays with the signed integers of the machine, 64 bits
  wide here (\<^verbatim>\<open>npy_intp\<close>, a C long); a table entry is a double of 8 bytes.
\<close>

definition max_intp :: int where
  "max_intp = 9223372036854775807"

definition itemsize :: int where
  "itemsize = 8"

text \<open>
  \<^verbatim>\<open>np.zeros((m, n))\<close>: an \<open>m\<close> by \<open>n\<close> array of zeros, a list of rows here. The library
  raises \<^verbatim>\<open>ValueError\<close> for a dimension that is no machine integer (\<^verbatim>\<open>Maximum allowed
  dimension exceeded\<close>), for a negative dimension (\<^verbatim>\<open>negative dimensions are not
  allowed\<close>), and for a size in bytes beyond the largest machine integer, where a
  dimension of zero counts as one (\<^verbatim>\<open>array is too big\<close>). It raises \<^verbatim>\<open>MemoryError\<close> when
  the allocator cannot provide the bytes of the table; \<open>heap\<close> is the number of bytes the
  allocator can provide. A dimension of zero is accepted and gives an empty array.
\<close>

definition np_zeros :: "nat \<Rightarrow> int \<Rightarrow> int \<Rightarrow> error + real list list" where
  "np_zeros heap m n =
     (if m < - max_intp - 1 \<or> max_intp < m \<or> n < - max_intp - 1 \<or> max_intp < n
      then Inl ValueError
      else if m < 0 \<or> n < 0 then Inl ValueError
      else if max_intp < itemsize * (if m = 0 then 1 else m) * (if n = 0 then 1 else n)
      then Inl ValueError
      else if int heap < itemsize * m * n then Inl MemoryError
      else Inr (replicate (nat m) (replicate (nat n) 0)))"

text \<open>
  An integer used as an index is first read as a machine integer. A Python integer that
  does not fit is coerced to an array scalar instead: from \<open>2 ^ 63\<close> to \<open>2 ^ 64 - 1\<close> an
  unsigned one, whose conversion raises \<^verbatim>\<open>OverflowError\<close>; further out an object, which
  is no valid index and raises \<^verbatim>\<open>IndexError\<close>.
\<close>

definition as_intp :: "int \<Rightarrow> error + int" where
  "as_intp i =
     (if - max_intp - 1 \<le> i \<and> i \<le> max_intp then Inr i
      else if max_intp < i \<and> i \<le> 2 * max_intp + 1 then Inl OverflowError
      else Inl IndexError)"

text \<open>
  An integer index \<open>i\<close> into an axis of size \<open>n\<close>: the array library accepts
  \<open>-n \<le> i < n\<close>, counts a negative index from the end, and raises
  \<^verbatim>\<open>IndexError\<close> for any other machine integer. The library converts the index before it
  tests the bounds; no axis is longer than \<open>max_intp\<close>, so an index within the bounds
  always converts, and the bounds are tested first here, which needs no bound on \<open>n\<close>.
\<close>

definition norm_index :: "nat \<Rightarrow> int \<Rightarrow> error + nat" where
  "norm_index n i =
     (if 0 \<le> i \<and> i < int n then Inr (nat i)
      else if - int n \<le> i \<and> i < 0 then Inr (nat (i + int n))
      else (case as_intp i of Inl e \<Rightarrow> Inl e | Inr i' \<Rightarrow> Inl IndexError))"

text \<open>
  A pair of integer indices \<^verbatim>\<open>q[i, j]\<close>: both are converted, in this order, before any
  bound is tested, so the conversion error of \<open>j\<close> comes before the \<^verbatim>\<open>IndexError\<close> of an
  \<open>i\<close> out of bounds.
\<close>

definition index2 :: "real list list \<Rightarrow> int \<Rightarrow> int \<Rightarrow> error + nat \<times> nat" where
  "index2 q i j =
     (case norm_index (length q) i of
        Inr i' \<Rightarrow>
          (case norm_index (length (q ! i')) j of
             Inl e \<Rightarrow> Inl e
           | Inr j' \<Rightarrow> Inr (i', j'))
      | Inl e \<Rightarrow>
          (case as_intp i of
             Inl e' \<Rightarrow> Inl e'
           | Inr i' \<Rightarrow>
               (case as_intp j of
                  Inl e' \<Rightarrow> Inl e'
                | Inr j' \<Rightarrow> Inl IndexError)))"

text \<open>
  \<^verbatim>\<open>np.max\<close> of a one-dimensional array; \<^verbatim>\<open>ValueError\<close> on an empty one.
\<close>

fun np_max :: "real list \<Rightarrow> error + real" where
  "np_max [] = Inl ValueError"
| "np_max (x # xs) = Inr (fold max xs x)"

text \<open>
  \<^verbatim>\<open>np.argmax\<close> of a one-dimensional array: a scan that keeps the best value seen and
  its index, and replaces them only on a strictly larger value. \<^verbatim>\<open>ValueError\<close> on an
  empty array.
\<close>

fun argmax_scan :: "real list \<Rightarrow> nat \<Rightarrow> real \<Rightarrow> nat \<Rightarrow> nat" where
  "argmax_scan [] i best bi = bi"
| "argmax_scan (x # xs) i best bi =
     (if best < x then argmax_scan xs (Suc i) x i else argmax_scan xs (Suc i) best bi)"

fun np_argmax :: "real list \<Rightarrow> error + int" where
  "np_argmax [] = Inl ValueError"
| "np_argmax (x # xs) = Inr (int (argmax_scan xs 1 x 0))"

subsection \<open>The random source\<close>

text \<open>
  \<^verbatim>\<open>self._rng = np.random\<close> binds the attribute to the module \<^verbatim>\<open>numpy.random\<close>, whose
  functions \<^verbatim>\<open>seed\<close>, \<^verbatim>\<open>random\<close> and \<^verbatim>\<open>randint\<close> work on one generator of the process.
  The state of that generator has the type \<open>'g\<close>; it is no field of the agent and is
  passed to and returned from every method that draws from it. The generator itself is
  a parameter of the model: \<open>seed_fn\<close> gives the state after \<^verbatim>\<open>seed(s)\<close> (or the
  exception of a rejected seed), \<open>random_fn\<close> one draw of \<^verbatim>\<open>random()\<close> and the next state,
  \<open>randint_fn n\<close> one draw of \<^verbatim>\<open>randint(n)\<close> and the next state.
\<close>

record 'g np_random =
  seed_fn :: "int \<Rightarrow> error + 'g"
  random_fn :: "'g \<Rightarrow> real \<times> 'g"
  randint_fn :: "int \<Rightarrow> 'g \<Rightarrow> (error + int) \<times> 'g"

text \<open>
  What the library documents of the two draws: \<^verbatim>\<open>random()\<close> lies in the half-open
  interval from 0 to 1, \<^verbatim>\<open>randint(n)\<close> lies in \<open>[0, n)\<close> for a positive \<open>n\<close> and raises
  \<^verbatim>\<open>ValueError\<close> for any other \<open>n\<close>.
\<close>

definition random_unit :: "'g np_random \<Rightarrow> bool" where
  "random_unit rng = (\<forall>g. 0 \<le> fst (random_fn rng g) \<and> fst (random_fn rng g) < 1)"

definition randint_range :: "'g np_random \<Rightarrow> bool" where
  "randint_range rng =
     (\<forall>n g. if 0 < n
            then (\<exists>k. fst (randint_fn rng n g) = Inr k \<and> 0 \<le> k \<and> k < n)
            else fst (randint_fn rng n g) = Inl ValueError)"

text \<open>
  A small linear congruential generator, used to run the model on concrete inputs. Its
  state is a natural number below \<open>2 ^ 31\<close>; a seed outside \<open>[0, 2 ^ 32)\<close> is rejected.
\<close>

definition lcg_next :: "nat \<Rightarrow> nat" where
  "lcg_next g = (1103515245 * g + 12345) mod 2147483648"

definition lcg_seed :: "int \<Rightarrow> error + nat" where
  "lcg_seed s = (if 0 \<le> s \<and> s < 4294967296 then Inr (nat s mod 2147483648) else Inl ValueError)"

definition lcg_random :: "nat \<Rightarrow> real \<times> nat" where
  "lcg_random g = (real (g mod 1000) / 1000, lcg_next g)"

definition lcg_randint :: "int \<Rightarrow> nat \<Rightarrow> (error + int) \<times> nat" where
  "lcg_randint n g =
     (if 0 < n then (Inr (int g mod n), lcg_next g) else (Inl ValueError, g))"

definition lcg :: "nat np_random" where
  "lcg = \<lparr>seed_fn = lcg_seed, random_fn = lcg_random, randint_fn = lcg_randint\<rparr>"

text \<open>
  A replay of the generator of \<^verbatim>\<open>numpy.random\<close> itself, the Mersenne Twister MT19937. Its
  state is the list of the 32-bit outputs still to come; \<open>mt_outputs\<close> holds the first
  six outputs after \<^verbatim>\<open>seed(7)\<close> and after \<^verbatim>\<open>seed(8)\<close>, and records no other seed. The
  draws are decoded as the library does: \<^verbatim>\<open>random()\<close> takes 27 bits of one output and 26
  bits of the next and divides by \<open>2 ^ 53\<close> (after \<^verbatim>\<open>seed(7)\<close> the first draw is
  0.0763..., after \<^verbatim>\<open>seed(8)\<close> it is 0.8734...); \<^verbatim>\<open>randint(n)\<close> masks outputs with the
  smallest mask of the form \<open>2 ^ k - 1\<close> that covers \<open>n - 1\<close> and takes the first one that
  is at most \<open>n - 1\<close>, with two outputs joined to 64 bits when \<open>n - 1\<close> needs more than
  32 bits. Past the recorded outputs the replay gives 0; it is used within them only.
\<close>

definition mt_outputs :: "int \<Rightarrow> nat list" where
  "mt_outputs s =
     (if s = 7 then [327741615, 976413892, 3349725721, 1369975286, 1882953283, 4201435347]
      else if s = 8 then [3751350723, 47736148, 4159850481, 1028385129, 3733162117, 1621423066]
      else [])"

definition replay_seed :: "int \<Rightarrow> error + nat list" where
  "replay_seed s = (if 0 \<le> s \<and> s < 4294967296 then Inr (mt_outputs s) else Inl ValueError)"

definition replay_random :: "nat list \<Rightarrow> real \<times> nat list" where
  "replay_random ws =
     (case ws of
        a # b # rest \<Rightarrow>
          ((real (a div 32) * 67108864 + real (b div 64)) / 9007199254740992, rest)
      | _ \<Rightarrow> (0, []))"

function gen_mask :: "nat \<Rightarrow> nat \<Rightarrow> nat" where
  "gen_mask m r = (if r \<le> m then m else gen_mask (2 * m + 1) r)"
  by pat_completeness auto
termination
  by (relation "measure (\<lambda>(m, r). r - m)") auto

declare gen_mask.simps [simp del]

fun masked32 :: "nat \<Rightarrow> nat \<Rightarrow> nat list \<Rightarrow> nat \<times> nat list" where
  "masked32 r msk [] = (0, [])"
| "masked32 r msk (w # ws) =
     (if w mod (msk + 1) \<le> r then (w mod (msk + 1), ws) else masked32 r msk ws)"

fun masked64 :: "nat \<Rightarrow> nat \<Rightarrow> nat list \<Rightarrow> nat \<times> nat list" where
  "masked64 r msk (hi # lo # ws) =
     (if (hi * 4294967296 + lo) mod (msk + 1) \<le> r
      then ((hi * 4294967296 + lo) mod (msk + 1), ws)
      else masked64 r msk ws)"
| "masked64 r msk ws = (0, [])"

definition replay_randint :: "int \<Rightarrow> nat list \<Rightarrow> (error + int) \<times> nat list" where
  "replay_randint n ws =
     (if n \<le> 0 \<or> max_intp + 1 < n then (Inl ValueError, ws)
      else if n = 1 then (Inr 0, ws)
      else if n - 1 \<le> 4294967295
      then (case masked32 (nat (n - 1)) (gen_mask 0 (nat (n - 1))) ws of
              (v, ws') \<Rightarrow> (Inr (int v), ws'))
      else (case masked64 (nat (n - 1)) (gen_mask 0 (nat (n - 1))) ws of
              (v, ws') \<Rightarrow> (Inr (int v), ws')))"

definition numpy_replay :: "nat list np_random" where
  "numpy_replay =
     \<lparr>seed_fn = replay_seed, random_fn = replay_random, randint_fn = replay_randint\<rparr>"

subsection \<open>The agent\<close>

text \<open>
  Modelled from the spec: the base class \<^verbatim>\<open>lab.core.Agent\<close> is not among the sources.
  Of it the record takes \<open>eval_mode\<close>, its boolean flag, off after construction and
  toggled from outside, and the state of \<^verbatim>\<open>_last_action\<close> before the first action: the
  attribute is assigned by \<^verbatim>\<open>act\<close> only and is undefined until then, so
  \<open>last_action = None\<close> stands for the attribute that does not exist yet, and reading it
  raises \<^verbatim>\<open>AttributeError\<close>.

  The other fields are the attributes that \<^verbatim>\<open>__init__\<close> assigns. \<open>last_state\<close> is
  \<^verbatim>\<open>None\<close> until \<^verbatim>\<open>begin_episode\<close> or \<^verbatim>\<open>learn\<close> stores an observation. \<^verbatim>\<open>_rng\<close> is no field:
  it refers to the module \<^verbatim>\<open>numpy.random\<close> in every agent.
\<close>

record agent =
  num_actions :: int
  num_states :: int
  learning_rate :: real
  exploration_rate :: real
  discount_factor :: real
  last_state :: "int option"
  last_action :: "int option"
  Q :: "real list list"
  eval_mode :: bool

text \<open>
  \<^verbatim>\<open>__init__(num_actions, num_states, learning_rate, exploration_rate, discount_factor)\<close>,
  in a process whose allocator can provide \<open>heap\<close> bytes.
\<close>

definition QLearningAgent_init :: "nat \<Rightarrow> int \<Rightarrow> int \<Rightarrow> real \<Rightarrow> real \<Rightarrow> real \<Rightarrow> error + agent" where
  "QLearningAgent_init heap n_actions n_states lr er df =
     (case np_zeros heap n_states n_actions of
        Inl e \<Rightarrow> Inl e
      | Inr q \<Rightarrow> Inr \<lparr>num_actions = n_actions, num_states = n_states,
                     learning_rate = lr, exploration_rate = er, discount_factor = df,
                     last_state = None, last_action = None, Q = q, eval_mode = False\<rparr>)"

text \<open>\<^verbatim>\<open>seed(seed)\<close>: re-seeds the generator of the module.\<close>

definition seed :: "'g np_random \<Rightarrow> int \<Rightarrow> agent \<times> 'g \<Rightarrow> (error + unit) \<times> agent \<times> 'g" where
  "seed rng s w =
     (case w of (a, g) \<Rightarrow>
        (case seed_fn rng s of
           Inl e \<Rightarrow> (Inl e, a, g)
         | Inr g' \<Rightarrow> (Inr (), a, g')))"

text \<open>
  \<^verbatim>\<open>_greedy_action\<close>: \<^verbatim>\<open>np.argmax(self._Q[self._last_state])\<close>. Indexing an array with
  \<^verbatim>\<open>None\<close> adds an axis and selects nothing, and \<^verbatim>\<open>np.argmax\<close> without an axis works on the
  flattened array: with \<open>last_state = None\<close> the result is the position of the first
  maximum of the whole table in row-major order.
\<close>

definition greedy_action :: "agent \<Rightarrow> error + int" where
  "greedy_action a =
     (case last_state a of
        None \<Rightarrow> np_argmax (concat (Q a))
      | Some s \<Rightarrow>
          (case norm_index (length (Q a)) s of
             Inl e \<Rightarrow> Inl e
           | Inr i \<Rightarrow> np_argmax (Q a ! i)))"

text \<open>\<^verbatim>\<open>_epsilon_greedy_action\<close>: one draw decides between exploring and exploiting.\<close>

definition epsilon_greedy_action :: "'g np_random \<Rightarrow> agent \<Rightarrow> 'g \<Rightarrow> (error + int) \<times> 'g" where
  "epsilon_greedy_action rng a g =
     (case random_fn rng g of (u, g1) \<Rightarrow>
        if u < exploration_rate a then randint_fn rng (num_actions a) g1
        else (greedy_action a, g1))"

text \<open>
  \<^verbatim>\<open>act\<close>: the action is recorded as \<open>last_action\<close> only when it was computed; an
  exception leaves the agent as it was (the generator may have advanced).
\<close>

definition act :: "'g np_random \<Rightarrow> agent \<times> 'g \<Rightarrow> (error + int) \<times> agent \<times> 'g" where
  "act rng w =
     (case w of (a, g) \<Rightarrow>
        (case (if eval_mode a then (greedy_action a, g) else epsilon_greedy_action rng a g) of
           (Inl e, g') \<Rightarrow> (Inl e, a, g')
         | (Inr action, g') \<Rightarrow> (Inr action, a\<lparr>last_action := Some action\<rparr>, g')))"

text \<open>\<^verbatim>\<open>begin_episode(observation)\<close>: stores the observation, nothing else.\<close>

definition begin_episode :: "int \<Rightarrow> agent \<Rightarrow> agent" where
  "begin_episode observation a = a\<lparr>last_state := Some observation\<rparr>"

text \<open>
  \<^verbatim>\<open>learn(reward, observation)\<close>. The statements run in the order of the source:
  \<^verbatim>\<open>self._last_action\<close> is read, then \<^verbatim>\<open>np.max(self._Q[state])\<close>, then
  \<^verbatim>\<open>self._Q[last_state, last_action]\<close>, and only then the table and the cursor are written,
  so an exception leaves the agent unchanged. With \<open>last_state = None\<close> the index
  \<^verbatim>\<open>[None, last_action]\<close> adds an axis and applies \<open>last_action\<close> to the first axis of
  the table: the in-place update then runs over that whole row.
\<close>

definition learn :: "real \<Rightarrow> int \<Rightarrow> agent \<Rightarrow> error + agent" where
  "learn reward observation a =
     (case last_action a of
        None \<Rightarrow> Inl AttributeError
      | Some la \<Rightarrow>
          (case norm_index (length (Q a)) observation of
             Inl e \<Rightarrow> Inl e
           | Inr st \<Rightarrow>
               (case np_max (Q a ! st) of
                  Inl e \<Rightarrow> Inl e
                | Inr m \<Rightarrow>
                    (let target = reward + discount_factor a * m in
                     case last_state a of
                       Some ls \<Rightarrow>
                         (case index2 (Q a) ls la of
                            Inl e \<Rightarrow> Inl e
                          | Inr (i, j) \<Rightarrow>
                              (let delta = target - Q a ! i ! j in
                               Inr (a\<lparr>Q := (Q a)[i := (Q a ! i)[j := Q a ! i ! j + learning_rate a * delta]],
                                      last_state := Some observation\<rparr>)))
                     | None \<Rightarrow>
                         (case norm_index (length (Q a)) la of
                            Inl e \<Rightarrow> Inl e
                          | Inr i \<Rightarrow>
                              Inr (a\<lparr>Q := (Q a)[i := map (\<lambda>q. q + learning_rate a * (target - q)) (Q a ! i)],
                                     last_state := Some observation\<rparr>))))))"

subsection \<open>A driver: scripted sequences of calls\<close>

text \<open>
  The training loop calls the methods of one agent in sequence; an exception ends the
  run. \<open>step\<close> is one call on the agent and the generator of the process, \<open>run\<close> a whole
  script, returning the actions that \<^verbatim>\<open>act\<close> returned, the exception if one was raised,
  and the final agent and generator.
\<close>

datatype call = Seed int | BeginEpisode int | Act | Learn real int | SetEvalMode bool

definition step :: "'g np_random \<Rightarrow> call \<Rightarrow> agent \<times> 'g \<Rightarrow> (error + int option) \<times> agent \<times> 'g" where
  "step rng c w =
     (case c of
        Seed s \<Rightarrow> (case seed rng s w of (r, w') \<Rightarrow> (map_sum id (\<lambda>_. None) r, w'))
      | BeginEpisode obs \<Rightarrow> (Inr None, begin_episode obs (fst w), snd w)
      | Act \<Rightarrow> (case act rng w of (r, w') \<Rightarrow> (map_sum id Some r, w'))
      | Learn reward obs \<Rightarrow>
          (case learn reward obs (fst w) of
             Inl e \<Rightarrow> (Inl e, w)
           | Inr a' \<Rightarrow> (Inr None, a', snd w))
      | SetEvalMode b \<Rightarrow> (Inr None, (fst w)\<lparr>eval_mode := b\<rparr>, snd w))"

fun run :: "'g np_random \<Rightarrow> call list \<Rightarrow> agent \<times> 'g \<Rightarrow> int list \<times> error option \<times> agent \<times> 'g" where
  "run rng [] w = ([], None, w)"
| "run rng (c # cs) w =
     (case step rng c w of
        (Inl e, w') \<Rightarrow> ([], Some e, w')
      | (Inr r, w') \<Rightarrow>
          (case run rng cs w' of
             (actions, rest) \<Rightarrow> ((case r of None \<Rightarrow> actions | Some k \<Rightarrow> k # actions), rest)))"

text \<open>
  The table has the shape the configuration declares.
\<close>

definition table_shape :: "agent \<Rightarrow> bool" where
  "table_shape a =
     (0 \<le> num_states a \<and> 0 \<le> num_actions a \<and>
      length (Q a) = nat (num_states a) \<and>
      list_all (\<lambda>row. length row = nat (num_actions a)) (Q a))"

subsection \<open>Concrete agents\<close>

text \<open>
  An agent in the middle of an episode: two states, two actions, the cursor on state 0
  with action 1 recorded.
\<close>

definition example_agent :: agent where
  "example_agent =
     \<lparr>num_actions = 2, num_states = 2, learning_rate = 1 / 2, exploration_rate = 1 / 10,
      discount_factor = 9 / 10, last_state = Some 0, last_action = Some 1,
      Q = [[1, 2], [5, 3]], eval_mode = False\<rparr>"

text \<open>
  An agent in evaluation mode whose row 0 has its maximum at the actions 1 and 2.
\<close>

definition tie_agent :: agent where
  "tie_agent =
     \<lparr>num_actions = 3, num_states = 2, learning_rate = 1 / 2, exploration_rate = 1 / 10,
      discount_factor = 9 / 10, last_state = Some 0, last_action = None,
      Q = [[3, 7, 7], [0, 0, 0]], eval_mode = True\<rparr>"

text \<open>
  The agent that \<^verbatim>\<open>QLearningAgent(2, 3, 0.5, 0.1, 0.99)\<close> constructs: two actions, three
  states, no cursor, no action recorded.
\<close>

definition fresh_agent :: agent where
  "fresh_agent =
     \<lparr>num_actions = 2, num_states = 3, learning_rate = 1 / 2, exploration_rate = 1 / 10,
      discount_factor = 99 / 100, last_state = None, last_action = None,
      Q = [[0, 0], [0, 0], [0, 0]], eval_mode = False\<rparr>"

subsection \<open>Several agents in one process\<close>

text \<open>
  Two agents live in one process and share what the process owns: the generator of the
  module \<^verbatim>\<open>numpy.random\<close>, to which the attribute \<^verbatim>\<open>_rng\<close> of each of them refers.
  \<open>call_on\<close> runs one call on one of the agents.
\<close>

record 'g process =
  agent1 :: agent
  agent2 :: agent
  generator :: 'g

datatype which = Agent1 | Agent2

definition call_on :: "'g np_random \<Rightarrow> which \<Rightarrow> call \<Rightarrow> 'g process \<Rightarrow> (error + int option) \<times> 'g process" where
  "call_on rng w c p =
     (case w of
        Agent1 \<Rightarrow>
          (case step rng c (agent1 p, generator p) of
             (r, a, g) \<Rightarrow> (r, p\<lparr>agent1 := a, generator := g\<rparr>))
      | Agent2 \<Rightarrow>
          (case step rng c (agent2 p, generator p) of
             (r, a, g) \<Rightarrow> (r, p\<lparr>agent2 := a, generator := g\<rparr>)))"

text \<open>
  A program drives both agents: a schedule lists the calls in the order in which they
  are made, each with the agent it is made on. An exception ends the program.
  \<open>run_process\<close> returns the actions with the agent that chose them, the exception if one
  was raised, and the final process.
\<close>

fun run_process ::
  "'g np_random \<Rightarrow> (which \<times> call) list \<Rightarrow> 'g process
     \<Rightarrow> (which \<times> int) list \<times> error option \<times> 'g process" where
  "run_process rng [] p = ([], None, p)"
| "run_process rng (wc # rest) p =
     (case call_on rng (fst wc) (snd wc) p of
        (Inl e, p') \<Rightarrow> ([], Some e, p')
      | (Inr r, p') \<Rightarrow>
          (case run_process rng rest p' of
             (actions, fin) \<Rightarrow>
               ((case r of None \<Rightarrow> actions | Some k \<Rightarrow> (fst wc, k) # actions), fin)))"

text \<open>
  The part of a schedule, or of the actions of a program, that belongs to one agent.
\<close>

definition agent_of :: "which \<Rightarrow> 'g process \<Rightarrow> agent" where
  "agent_of w p = (case w of Agent1 \<Rightarrow> agent1 p | Agent2 \<Rightarrow> agent2 p)"

definition part_of :: "which \<Rightarrow> (which \<times> 'a) list \<Rightarrow> 'a list" where
  "part_of w xs = map snd (filter (\<lambda>x. fst x = w) xs)"

text \<open>
  The calls that neither seed the generator nor may draw from it, and the schedules in
  which every agent but \<open>w\<close> makes such calls only.
\<close>

definition quiet :: "call \<Rightarrow> bool" where
  "quiet c = (case c of Seed s \<Rightarrow> False | Act \<Rightarrow> False | _ \<Rightarrow> True)"

definition others_quiet :: "which \<Rightarrow> (which \<times> call) list \<Rightarrow> bool" where
  "others_quiet w sched = list_all (\<lambda>wc. fst wc = w \<or> quiet (snd wc)) sched"

text \<open>
  A process with two fresh agents of two actions and three states each, as
  \<^verbatim>\<open>QLearningAgent(2, 3, 0.5, 0.1, 0.99)\<close> constructs them, and the generator not seeded yet.
\<close>

definition two_fresh :: "nat list process" where
  "two_fresh = \<lparr>agent1 = fresh_agent, agent2 = fresh_agent, generator = []\<rparr>"

section \<open>Properties\<close>

subsection \<open>Facts about the array primitives\<close>

lemma norm_index_in_range: "0 \<le> i \<Longrightarrow> i < int n \<Longrightarrow> norm_index n i = Inr (nat i)"
  by (simp add: norm_index_def)

lemma np_max_Max:
  assumes "xs \<noteq> []"
  shows "np_max xs = Inr (Max (set xs))"
proof (cases xs)
  case Nil
  with assms show ?thesis by simp
next
  case (Cons y ys)
  then show ?thesis using Max.set_eq_fold [of y ys] by simp
qed

lemma argmax_scan_first_max:
  assumes "length ys = i" "bi < i" "ys ! bi = best"
    and "\<forall>y\<in>set ys. y \<le> best" "\<forall>j<bi. ys ! j < best"
  shows "argmax_scan xs i best bi < length (ys @ xs) \<and>
         (\<forall>y\<in>set (ys @ xs). y \<le> (ys @ xs) ! argmax_scan xs i best bi) \<and>
         (\<forall>j<argmax_scan xs i best bi. (ys @ xs) ! j < (ys @ xs) ! argmax_scan xs i best bi)"
  using assms
proof (induction xs arbitrary: ys i best bi)
  case Nil
  then show ?case by auto
next
  case (Cons x xs)
  show ?case
  proof (cases "best < x")
    case True
    have "\<forall>j<i. (ys @ [x]) ! j < x"
      using Cons.prems True by (auto simp: nth_append intro: le_less_trans)
    moreover have "\<forall>y\<in>set (ys @ [x]). y \<le> x"
      using Cons.prems True by auto
    ultimately show ?thesis
      using Cons.IH [of "ys @ [x]" "Suc i" i x] Cons.prems True by (simp add: nth_append)
  next
    case False
    have "\<forall>y\<in>set (ys @ [x]). y \<le> best"
      using Cons.prems False by auto
    moreover have "\<forall>j<bi. (ys @ [x]) ! j < best" "(ys @ [x]) ! bi = best"
      using Cons.prems by (auto simp: nth_append)
    ultimately show ?thesis
      using Cons.IH [of "ys @ [x]" "Suc i" bi best] Cons.prems False by simp
  qed
qed

lemma np_argmax_first_max:
  assumes "row \<noteq> []"
  shows "\<exists>k. np_argmax row = Inr (int k) \<and> k < length row \<and>
             row ! k = Max (set row) \<and> (\<forall>j<k. row ! j < row ! k)"
proof -
  from assms obtain x xs where row: "row = x # xs" by (cases row) auto
  define k where "k = argmax_scan xs 1 x 0"
  have *: "k < length ([x] @ xs) \<and> (\<forall>y\<in>set ([x] @ xs). y \<le> ([x] @ xs) ! k) \<and>
           (\<forall>j<k. ([x] @ xs) ! j < ([x] @ xs) ! k)"
    unfolding k_def by (rule argmax_scan_first_max) auto
  then have lt: "k < length row" and ub: "\<forall>y\<in>set row. y \<le> row ! k"
    and first: "\<forall>j<k. row ! j < row ! k"
    by (simp_all add: row)
  have "row ! k \<in> set row" using lt by simp
  with ub have "Max (set row) = row ! k"
    by (intro Max_eqI) auto
  moreover have "np_argmax row = Inr (int k)" by (simp add: row k_def)
  ultimately show ?thesis using lt first by auto
qed

lemma norm_index_negative:
  "- int n \<le> i \<Longrightarrow> i < 0 \<Longrightarrow> norm_index n i = Inr (nat (i + int n))"
  by (simp add: norm_index_def)

lemma norm_index_outside:
  assumes "i < - int n \<or> int n \<le> i"
  shows "norm_index n i = Inl IndexError \<or> norm_index n i = Inl OverflowError"
    and "- max_intp - 1 \<le> i \<Longrightarrow> i \<le> max_intp \<Longrightarrow> norm_index n i = Inl IndexError"
    and "max_intp < i \<Longrightarrow> i \<le> 2 * max_intp + 1 \<Longrightarrow> norm_index n i = Inl OverflowError"
  using assms by (auto simp: norm_index_def as_intp_def)

lemma index2_in_range:
  "norm_index (length q) i = Inr i' \<Longrightarrow> norm_index (length (q ! i')) j = Inr j' \<Longrightarrow>
   index2 q i j = Inr (i', j')"
  by (simp add: index2_def)

lemma index2_less:
  "index2 q i j = Inr (i', j') \<Longrightarrow> i' < length q \<and> j' < length (q ! i')"
  by (auto simp: index2_def norm_index_def as_intp_def split: sum.splits if_splits)

lemma argmax_scan_no_better:
  "\<forall>x\<in>set xs. \<not> best < x \<Longrightarrow> argmax_scan xs i best bi = bi"
  by (induction xs arbitrary: i) auto

lemma np_argmax_all_zero:
  assumes "xs \<noteq> []" "\<forall>x\<in>set xs. x = 0"
  shows "np_argmax xs = Inr 0"
proof -
  from assms(1) obtain y ys where xs: "xs = y # ys" by (cases xs) auto
  with assms(2) have "y = 0" "\<forall>x\<in>set ys. \<not> y < x" by auto
  then show ?thesis by (simp add: xs argmax_scan_no_better)
qed

lemma init_fresh:
  assumes "QLearningAgent_init heap n_actions n_states lr er df = Inr a"
  shows "Q a = replicate (nat n_states) (replicate (nat n_actions) 0)"
    and "last_state a = None" and "last_action a = None" and "\<not> eval_mode a"
    and "num_actions a = n_actions"
  using assms by (auto simp: QLearningAgent_init_def np_zeros_def split: if_splits)

lemma init_fresh_agent:
  "QLearningAgent_init 1024 2 3 (1 / 2) (1 / 10) (99 / 100) = Inr fresh_agent"
  by (simp add: QLearningAgent_init_def np_zeros_def max_intp_def itemsize_def
      numeral_3_eq_3 numeral_2_eq_2 fresh_agent_def)

lemma table_shape_row:
  "table_shape a \<Longrightarrow> i < length (Q a) \<Longrightarrow> length (Q a ! i) = nat (num_actions a)"
  by (simp add: table_shape_def list_all_length)

lemma table_shape_update:
  assumes "table_shape a" "length row = nat (num_actions a)"
  shows "table_shape (a\<lparr>Q := (Q a)[i := row], last_state := x\<rparr>)"
  using assms set_update_subset_insert [of "Q a" i row]
  by (auto simp: table_shape_def list_all_iff)

text \<open>
  The shape of the table is an invariant: construction establishes it and every call of
  a script keeps it, so the theorems below that assume it apply to every agent a program
  can reach.
\<close>

lemma table_shape_init:
  "QLearningAgent_init heap n_actions n_states lr er df = Inr a \<Longrightarrow> table_shape a"
  by (auto simp: QLearningAgent_init_def np_zeros_def table_shape_def list_all_iff split: if_splits)

lemma norm_index_less: "norm_index n i = Inr j \<Longrightarrow> j < n"
  by (auto simp: norm_index_def split: if_splits sum.splits)

lemma table_shape_learn:
  assumes "table_shape a" "learn r obs a = Inr a'"
  shows "table_shape a'"
proof -
  have row: "length (Q a ! i) = nat (num_actions a)" if "norm_index (length (Q a)) x = Inr i" for x i
    using table_shape_row [OF assms(1)] norm_index_less [OF that] by simp
  have upd: "table_shape (a\<lparr>Q := (Q a)[i := new], last_state := c\<rparr>)"
    if "length new = nat (num_actions a)" for i new c
    by (rule table_shape_update [OF assms(1) that])
  have row2: "length (Q a ! i) = nat (num_actions a)" if "index2 (Q a) x y = Inr (i, j)" for x y i j
    using table_shape_row [OF assms(1)] index2_less [OF that] by simp
  from assms(2) show ?thesis
    by (auto simp: learn_def Let_def row row2 intro!: upd split: option.splits sum.splits)
qed

lemma table_shape_step:
  assumes "table_shape a" "step rng c (a, g) = (res, a', g')"
  shows "table_shape a'"
proof (cases c)
  case (Learn r obs)
  with assms show ?thesis
    by (auto simp: step_def split: sum.splits dest: table_shape_learn)
next
  case Act
  with assms show ?thesis
    by (auto simp: step_def act_def table_shape_def split: sum.splits prod.splits if_splits)
qed (use assms in \<open>auto simp: step_def seed_def begin_episode_def table_shape_def split: sum.splits\<close>)

lemma table_shape_run:
  assumes "table_shape a" "run rng cs (a, g) = (actions, err, a', g')"
  shows "table_shape a'"
  using assms
proof (induction cs arbitrary: a g actions)
  case Nil
  then show ?case by simp
next
  case (Cons c cs)
  obtain res a1 g1 where st: "step rng c (a, g) = (res, a1, g1)"
    by (cases "step rng c (a, g)") auto
  have sh1: "table_shape a1" by (rule table_shape_step [OF Cons.prems(1) st])
  show ?case
  proof (cases res)
    case (Inl e)
    with Cons.prems(2) st sh1 show ?thesis by simp
  next
    case (Inr r)
    obtain acts rest where rn: "run rng cs (a1, g1) = (acts, rest)"
      by (cases "run rng cs (a1, g1)") auto
    with Cons.prems(2) st Inr have "rest = (err, a', g')" by simp
    with rn have "run rng cs (a1, g1) = (acts, err, a', g')" by simp
    from Cons.IH [OF sh1 this] show ?thesis .
  qed
qed

lemma table_shape_example: "table_shape example_agent"
  by (simp add: table_shape_def example_agent_def)

lemma table_shape_tie: "table_shape tie_agent"
  by (simp add: table_shape_def tie_agent_def)

lemma random_unit_lcg: "random_unit lcg"
  by (simp add: random_unit_def lcg_def lcg_random_def)

lemma randint_range_lcg: "randint_range lcg"
  by (simp add: randint_range_def lcg_def lcg_randint_def)

lemma greedy_action_valid:
  assumes shape: "table_shape a"
    and ls: "last_state a = Some s" "0 \<le> s" "s < num_states a"
    and na: "0 < num_actions a"
  shows "\<exists>k. greedy_action a = Inr (int k) \<and> k < nat (num_actions a) \<and>
             Q a ! nat s ! k = Max (set (Q a ! nat s)) \<and>
             (\<forall>j<k. Q a ! nat s ! j < Q a ! nat s ! k)"
proof -
  have len: "length (Q a) = nat (num_states a)" using shape by (simp add: table_shape_def)
  then have s_lt: "nat s < length (Q a)" using ls by auto
  have row: "length (Q a ! nat s) = nat (num_actions a)"
    by (rule table_shape_row [OF shape s_lt])
  then have ne: "Q a ! nat s \<noteq> []" using na by auto
  have ix: "norm_index (length (Q a)) s = Inr (nat s)"
    using ls len by (auto intro: norm_index_in_range)
  have g: "greedy_action a = np_argmax (Q a ! nat s)"
    by (simp add: greedy_action_def ls ix)
  from np_argmax_first_max [OF ne] show ?thesis
    unfolding g row by blast
qed

subsection \<open>The temporal-difference update\<close>

text \<open>
  C1. With a table of the declared shape, the cursor on a valid state \<open>s\<close>, a recorded
  action \<open>k\<close> in range and a valid observation \<open>s'\<close>, one call of \<open>learn r s'\<close> returns
  normally; the cell \<open>(s, k)\<close> becomes its old value plus the learning rate times
  (reward plus discount times the maximum of the old row \<open>s'\<close>, minus the old value);
  every other cell keeps its value and the shape is kept; the cursor is \<open>s'\<close>, so the
  next greedy choice reads row \<open>s'\<close>; no other attribute changes.
\<close>

theorem C1_learn_td_update:
  assumes shape: "table_shape a"
    and ls: "last_state a = Some s" "0 \<le> s" "s < num_states a"
    and la: "last_action a = Some k" "0 \<le> k" "k < num_actions a"
    and obs: "0 \<le> s'" "s' < num_states a"
  shows "\<exists>a'. learn r s' a = Inr a' \<and>
           Q a' ! nat s ! nat k =
             Q a ! nat s ! nat k +
               learning_rate a * (r + discount_factor a * Max (set (Q a ! nat s')) - Q a ! nat s ! nat k) \<and>
           (\<forall>i j. i < nat (num_states a) \<and> j < nat (num_actions a) \<and> (i, j) \<noteq> (nat s, nat k)
                  \<longrightarrow> Q a' ! i ! j = Q a ! i ! j) \<and>
           table_shape a' \<and>
           last_state a' = Some s' \<and>
           greedy_action a' = np_argmax (Q a' ! nat s') \<and>
           a' = a\<lparr>Q := Q a', last_state := Some s'\<rparr>"
proof -
  let ?n = "length (Q a)"
  have len: "?n = nat (num_states a)" using shape by (simp add: table_shape_def)
  have s_lt: "nat s < ?n" and s'_lt: "nat s' < ?n" using ls obs len by auto
  have row_s: "length (Q a ! nat s) = nat (num_actions a)"
    and row_s': "length (Q a ! nat s') = nat (num_actions a)"
    using table_shape_row [OF shape] s_lt s'_lt by auto
  have k_lt: "nat k < length (Q a ! nat s)" using la row_s by auto
  have ne: "Q a ! nat s' \<noteq> []" using row_s' la by auto
  have ix_s: "norm_index ?n s = Inr (nat s)" and ix_s': "norm_index ?n s' = Inr (nat s')"
    using ls obs len by (auto intro: norm_index_in_range)
  have ix_k: "norm_index (length (Q a ! nat s)) k = Inr (nat k)"
    using la row_s by (auto intro: norm_index_in_range)
  define v where "v = Q a ! nat s ! nat k +
      learning_rate a * (r + discount_factor a * Max (set (Q a ! nat s')) - Q a ! nat s ! nat k)"
  define a' where "a' = a\<lparr>Q := (Q a)[nat s := (Q a ! nat s)[nat k := v]], last_state := Some s'\<rparr>"
  have ix_sk: "index2 (Q a) s k = Inr (nat s, nat k)"
    by (rule index2_in_range [OF ix_s ix_k])
  have L: "learn r s' a = Inr a'"
    by (simp add: learn_def la ls ix_sk ix_s' np_max_Max [OF ne] a'_def v_def Let_def)
  have cell: "Q a' ! nat s ! nat k = v"
    using s_lt k_lt by (simp add: a'_def)
  have others: "Q a' ! i ! j = Q a ! i ! j" if "(i, j) \<noteq> (nat s, nat k)" for i j
    using that s_lt by (cases "i = nat s") (auto simp: a'_def nth_list_update)
  have shape': "table_shape a'"
    unfolding a'_def by (rule table_shape_update [OF shape]) (simp add: row_s)
  have cur: "last_state a' = Some s'" by (simp add: a'_def)
  have lenQ': "length (Q a') = ?n" by (simp add: a'_def)
  have greedy: "greedy_action a' = np_argmax (Q a' ! nat s')"
    using ix_s' by (simp add: greedy_action_def cur lenQ')
  have rest: "a' = a\<lparr>Q := Q a', last_state := Some s'\<rparr>" by (simp add: a'_def)
  show ?thesis
  proof (intro exI [of _ a'] conjI allI impI)
    show "learn r s' a = Inr a'" by (rule L)
    show "Q a' ! nat s ! nat k = Q a ! nat s ! nat k +
        learning_rate a * (r + discount_factor a * Max (set (Q a ! nat s')) - Q a ! nat s ! nat k)"
      using cell by (simp add: v_def)
    show "Q a' ! i ! j = Q a ! i ! j"
      if "i < nat (num_states a) \<and> j < nat (num_actions a) \<and> (i, j) \<noteq> (nat s, nat k)" for i j
      using that others by blast
    show "table_shape a'" by (rule shape')
    show "last_state a' = Some s'" by (rule cur)
    show "greedy_action a' = np_argmax (Q a' ! nat s')" by (rule greedy)
    show "a' = a\<lparr>Q := Q a', last_state := Some s'\<rparr>" by (rule rest)
  qed
qed

theorem C1_learn_td_update_witness:
  "\<exists>a'. learn 1 1 example_agent = Inr a' \<and> Q a' ! 0 ! 1 = 15 / 4 \<and> Q a' ! 0 ! 0 = 1 \<and>
        Q a' ! 1 ! 0 = 5 \<and> Q a' ! 1 ! 1 = 3 \<and> last_state a' = Some 1"
proof -
  have "last_state example_agent = Some 0" "last_action example_agent = Some 1"
    "(1::int) < num_states example_agent" "(1::int) < num_actions example_agent"
    by (simp_all add: example_agent_def)
  with C1_learn_td_update [OF table_shape_example, of 0 1 1 1]
  obtain a' where a': "learn 1 1 example_agent = Inr a'" "last_state a' = Some 1"
    and cell: "Q a' ! nat 0 ! nat 1 =
      Q example_agent ! nat 0 ! nat 1 +
        learning_rate example_agent *
          (1 + discount_factor example_agent * Max (set (Q example_agent ! nat 1))
             - Q example_agent ! nat 0 ! nat 1)"
    and others: "\<forall>i j. i < nat (num_states example_agent) \<and> j < nat (num_actions example_agent) \<and>
        (i, j) \<noteq> (nat 0, nat 1) \<longrightarrow> Q a' ! i ! j = Q example_agent ! i ! j"
    by auto
  have "Q a' ! 0 ! 1 = 15 / 4"
    using cell by (simp add: example_agent_def)
  moreover have "Q a' ! 0 ! 0 = 1" "Q a' ! 1 ! 0 = 5" "Q a' ! 1 ! 1 = 3"
    using others [rule_format, of 0 0] others [rule_format, of 1 0] others [rule_format, of 1 1]
    by (simp_all add: example_agent_def)
  ultimately show ?thesis using a' by blast
qed

subsection \<open>Learning and the evaluation flag\<close>

text \<open>
  C10. \<open>learn\<close> never reads the evaluation flag: for every agent, reward, observation
  and generator state, the call with the flag set to \<open>b\<close> gives the result of the call
  on the agent as it is (the same exception or the same new table, cursor and other
  attributes), with only the flag itself set to \<open>b\<close>; the generator is not touched.
\<close>

theorem C10_learn_ignores_eval_mode:
  "step rng (Learn r obs) (a\<lparr>eval_mode := b\<rparr>, g) =
     (case step rng (Learn r obs) (a, g) of (res, a', g') \<Rightarrow> (res, a'\<lparr>eval_mode := b\<rparr>, g)) \<and>
   snd (snd (step rng (Learn r obs) (a, g))) = g"
  by (simp add: step_def learn_def Let_def split: option.splits sum.splits)

subsection \<open>The policy\<close>

text \<open>
  C2. In evaluation mode, with a table of the declared shape, at least one action and
  the cursor on a valid state \<open>s\<close>, \<open>act\<close> returns an action \<open>k\<close> whose value is the maximum
  of row \<open>s\<close>, and every action before \<open>k\<close> has a strictly smaller value: \<open>k\<close> is the
  lowest index among the tied maxima. The result does not depend on the generator, which
  is returned unchanged; only \<open>last_action\<close> is written, and every further call
  returns the same \<open>k\<close>.
\<close>

theorem C2_greedy_first_maximum:
  assumes shape: "table_shape a"
    and ev: "eval_mode a"
    and ls: "last_state a = Some s" "0 \<le> s" "s < num_states a"
    and na: "0 < num_actions a"
  shows "\<exists>k. act rng (a, g) = (Inr (int k), a\<lparr>last_action := Some (int k)\<rparr>, g) \<and>
             k < nat (num_actions a) \<and>
             Q a ! nat s ! k = Max (set (Q a ! nat s)) \<and>
             (\<forall>j<k. Q a ! nat s ! j < Q a ! nat s ! k) \<and>
             (\<forall>g'. fst (act rng (a\<lparr>last_action := Some (int k)\<rparr>, g')) = Inr (int k))"
proof -
  from greedy_action_valid [OF shape ls na] obtain k where
    k: "greedy_action a = Inr (int k)" "k < nat (num_actions a)"
       "Q a ! nat s ! k = Max (set (Q a ! nat s))" "\<forall>j<k. Q a ! nat s ! j < Q a ! nat s ! k"
    by blast
  have "act rng (a, g) = (Inr (int k), a\<lparr>last_action := Some (int k)\<rparr>, g)"
    by (simp add: act_def ev k(1))
  moreover have "greedy_action (a\<lparr>last_action := Some (int k)\<rparr>) = greedy_action a"
    by (simp add: greedy_action_def cong: option.case_cong sum.case_cong)
  then have "fst (act rng (a\<lparr>last_action := Some (int k)\<rparr>, g')) = Inr (int k)" for g'
    by (simp add: act_def ev k(1))
  ultimately show ?thesis using k by blast
qed

theorem C2_greedy_first_maximum_witness:
  "act lcg (tie_agent, 5) = (Inr 1, tie_agent\<lparr>last_action := Some 1\<rparr>, 5)"
proof -
  have "eval_mode tie_agent" "last_state tie_agent = Some 0" "(0::int) < num_states tie_agent"
    "0 < num_actions tie_agent"
    by (simp_all add: tie_agent_def)
  with C2_greedy_first_maximum [OF table_shape_tie, of 0 lcg 5]
  obtain k where k: "act lcg (tie_agent, 5) = (Inr (int k), tie_agent\<lparr>last_action := Some (int k)\<rparr>, 5)"
    "k < nat (num_actions tie_agent)"
    "Q tie_agent ! nat 0 ! k = Max (set (Q tie_agent ! nat 0))"
    "\<forall>j<k. Q tie_agent ! nat 0 ! j < Q tie_agent ! nat 0 ! k"
    by auto
  have "k < 3" using k(2) by (simp add: tie_agent_def)
  then have "k = 0 \<or> k = 1 \<or> k = 2" by auto
  moreover have "k \<noteq> 0"
  proof
    assume "k = 0"
    with k(3) show False by (simp add: tie_agent_def)
  qed
  moreover have "k \<noteq> 2"
  proof
    assume "k = 2"
    with k(4) have "Q tie_agent ! nat 0 ! 1 < Q tie_agent ! nat 0 ! 2" by simp
    then show False by (simp add: tie_agent_def)
  qed
  ultimately have "k = 1" by auto
  with k(1) show ?thesis by simp
qed

text \<open>
  C9. With a table of the declared shape, at least one action, the cursor on a valid
  state and a generator whose \<^verbatim>\<open>randint(n)\<close> lies in \<open>[0, n)\<close>, \<open>act\<close> returns normally in
  either mode and from every generator state; the action is an integer \<open>k\<close> with
  \<open>0 \<le> k < num_actions\<close>, and the agent afterwards is the agent before with
  \<open>last_action\<close> set to \<open>k\<close>.
\<close>

theorem C9_act_in_range:
  assumes shape: "table_shape a"
    and ls: "last_state a = Some s" "0 \<le> s" "s < num_states a"
    and na: "0 < num_actions a"
    and rng: "randint_range rng"
  shows "\<exists>k g'. act rng (a, g) = (Inr k, a\<lparr>last_action := Some k\<rparr>, g') \<and>
               0 \<le> k \<and> k < num_actions a"
proof -
  from greedy_action_valid [OF shape ls na] obtain m where
    m: "greedy_action a = Inr (int m)" "m < nat (num_actions a)"
    by blast
  show ?thesis
  proof (cases "eval_mode a")
    case True
    then have "act rng (a, g) = (Inr (int m), a\<lparr>last_action := Some (int m)\<rparr>, g)"
      by (simp add: act_def m(1))
    then show ?thesis using m(2) by auto
  next
    case False
    obtain u g1 where draw: "random_fn rng g = (u, g1)" by (cases "random_fn rng g")
    show ?thesis
    proof (cases "u < exploration_rate a")
      case True
      from rng na obtain k where k: "fst (randint_fn rng (num_actions a) g1) = Inr k" "0 \<le> k" "k < num_actions a"
        unfolding randint_range_def by (metis (full_types))
      obtain g2 where "randint_fn rng (num_actions a) g1 = (Inr k, g2)"
        using k(1) by (cases "randint_fn rng (num_actions a) g1") auto
      then have "act rng (a, g) = (Inr k, a\<lparr>last_action := Some k\<rparr>, g2)"
        using False True by (simp add: act_def epsilon_greedy_action_def draw)
      then show ?thesis using k by blast
    next
      case nexp: False
      have "act rng (a, g) = (Inr (int m), a\<lparr>last_action := Some (int m)\<rparr>, g1)"
        using False nexp by (simp add: act_def epsilon_greedy_action_def draw m(1))
      then show ?thesis using m(2) by auto
    qed
  qed
qed

theorem C9_act_in_range_witness:
  "\<exists>k g'. act lcg (example_agent, 7) = (Inr k, example_agent\<lparr>last_action := Some k\<rparr>, g') \<and>
          0 \<le> k \<and> k < 2"
proof -
  have "last_state example_agent = Some 0" "(0::int) < num_states example_agent"
    "0 < num_actions example_agent" "num_actions example_agent = 2"
    by (simp_all add: example_agent_def)
  with C9_act_in_range [OF table_shape_example, of 0 lcg 7] randint_range_lcg
  show ?thesis by auto
qed

text \<open>
  C8. With an exploration rate of exactly 0 and a generator whose \<^verbatim>\<open>random()\<close> is never
  negative, \<open>act\<close> in training mode returns what \<open>act\<close> in evaluation mode returns (the
  greedy action, or the same exception) and records the same \<open>last_action\<close>, for every
  agent and generator state. The two calls differ in the generator only: evaluation mode
  leaves it untouched, training mode consumes the one draw of \<^verbatim>\<open>random()\<close>.
\<close>

theorem C8_epsilon_zero_is_greedy:
  assumes eps: "exploration_rate a = 0"
    and rng: "random_unit rng"
  shows "fst (act rng (a\<lparr>eval_mode := False\<rparr>, g)) = fst (act rng (a\<lparr>eval_mode := True\<rparr>, g)) \<and>
         fst (act rng (a\<lparr>eval_mode := True\<rparr>, g)) = greedy_action a \<and>
         last_action (fst (snd (act rng (a\<lparr>eval_mode := False\<rparr>, g)))) =
           last_action (fst (snd (act rng (a\<lparr>eval_mode := True\<rparr>, g)))) \<and>
         snd (snd (act rng (a\<lparr>eval_mode := True\<rparr>, g))) = g \<and>
         snd (snd (act rng (a\<lparr>eval_mode := False\<rparr>, g))) = snd (random_fn rng g)"
proof -
  obtain u g1 where draw: "random_fn rng g = (u, g1)" by (cases "random_fn rng g")
  have "0 \<le> u" using rng draw unfolding random_unit_def by (metis fst_conv)
  then have nexp: "\<not> u < exploration_rate a" using eps by simp
  have gr: "greedy_action (a\<lparr>eval_mode := b\<rparr>) = greedy_action a" for b
    by (simp add: greedy_action_def cong: option.case_cong sum.case_cong)
  show ?thesis
    using nexp by (cases "greedy_action a") (simp_all add: act_def epsilon_greedy_action_def draw gr)
qed

theorem C8_epsilon_zero_is_greedy_witness:
  "fst (act lcg (example_agent\<lparr>exploration_rate := 0, eval_mode := False\<rparr>, 7)) = Inr 1 \<and>
   fst (act lcg (example_agent\<lparr>exploration_rate := 0, eval_mode := True\<rparr>, 7)) = Inr 1"
proof -
  have ev: "fst (act lcg (example_agent\<lparr>exploration_rate := 0, eval_mode := True\<rparr>, 7)) = Inr 1"
    by (simp add: act_def example_agent_def greedy_action_def norm_index_def)
  have "exploration_rate (example_agent\<lparr>exploration_rate := 0\<rparr>) = 0" by simp
  from C8_epsilon_zero_is_greedy [OF this random_unit_lcg, of 7] ev
  show ?thesis by simp
qed

subsection \<open>Construction\<close>

text \<open>
  C7, as the spec states it, fails: construction with \<open>num_states = 0\<close> or
  \<open>num_actions = 0\<close> returns an agent, with an empty table.
\<close>

theorem C7_counterexample:
  "QLearningAgent_init 1024 3 0 (1 / 2) (1 / 10) (99 / 100) =
     Inr \<lparr>num_actions = 3, num_states = 0, learning_rate = 1 / 2, exploration_rate = 1 / 10,
          discount_factor = 99 / 100, last_state = None, last_action = None, Q = [],
          eval_mode = False\<rparr> \<and>
   QLearningAgent_init 1024 0 3 (1 / 2) (1 / 10) (99 / 100) =
     Inr \<lparr>num_actions = 0, num_states = 3, learning_rate = 1 / 2, exploration_rate = 1 / 10,
          discount_factor = 99 / 100, last_state = None, last_action = None, Q = [[], [], []],
          eval_mode = False\<rparr>"
  by (simp add: QLearningAgent_init_def np_zeros_def max_intp_def itemsize_def numeral_3_eq_3)

text \<open>
  C7, amended. \<^verbatim>\<open>__init__\<close> checks nothing itself and no \<^verbatim>\<open>ConfigurationError\<close> exists. For
  every negative \<open>num_states\<close> or \<open>num_actions\<close> construction fails, with the
  \<^verbatim>\<open>ValueError\<close> that the allocation of the table raises. Zero is not rejected: with
  \<open>num_states = 0\<close> or \<open>num_actions = 0\<close>, and the other argument not negative and of a
  size the array library can address (8 times it is at most \<open>2 ^ 63 - 1\<close>), construction
  returns an agent whose table has the declared shape and no cell, with no cursor, no
  recorded action and evaluation mode off, however little memory there is.
\<close>

theorem C7_init_negative_fails_zero_accepted:
  "(n_actions < 0 \<or> n_states < 0 \<longrightarrow>
      QLearningAgent_init heap n_actions n_states lr er df = Inl ValueError) \<and>
   ((n_actions = 0 \<or> n_states = 0) \<and> 0 \<le> n_actions \<and> 0 \<le> n_states \<and>
    itemsize * n_actions \<le> max_intp \<and> itemsize * n_states \<le> max_intp \<longrightarrow>
      (\<exists>a. QLearningAgent_init heap n_actions n_states lr er df = Inr a \<and>
           table_shape a \<and> num_actions a = n_actions \<and> num_states a = n_states \<and>
           concat (Q a) = [] \<and>
           last_state a = None \<and> last_action a = None \<and> \<not> eval_mode a))"
proof (intro conjI impI)
  assume "n_actions < 0 \<or> n_states < 0"
  then show "QLearningAgent_init heap n_actions n_states lr er df = Inl ValueError"
    by (auto simp: QLearningAgent_init_def np_zeros_def)
next
  assume h: "(n_actions = 0 \<or> n_states = 0) \<and> 0 \<le> n_actions \<and> 0 \<le> n_states \<and>
    itemsize * n_actions \<le> max_intp \<and> itemsize * n_states \<le> max_intp"
  then have small: "n_actions \<le> max_intp" "n_states \<le> max_intp"
    by (simp_all add: itemsize_def)
  have pos: "8 \<le> max_intp" by (simp add: max_intp_def)
  have fit: "\<not> max_intp < itemsize * (if n_states = 0 then 1 else n_states) *
      (if n_actions = 0 then 1 else n_actions)"
    using h pos by (auto simp: itemsize_def)
  have zero: "itemsize * n_states * n_actions = 0" using h by auto
  have np: "np_zeros heap n_states n_actions =
      Inr (replicate (nat n_states) (replicate (nat n_actions) 0))"
    unfolding np_zeros_def using h small fit zero by auto
  have empty: "concat (replicate (nat n_states) (replicate (nat n_actions) (0::real))) = []"
    using h by (auto simp: concat_eq_Nil_conv)
  show "\<exists>a. QLearningAgent_init heap n_actions n_states lr er df = Inr a \<and>
           table_shape a \<and> num_actions a = n_actions \<and> num_states a = n_states \<and>
           concat (Q a) = [] \<and>
           last_state a = None \<and> last_action a = None \<and> \<not> eval_mode a"
    using h empty by (simp add: QLearningAgent_init_def np table_shape_def list_all_iff)
qed

theorem C7_init_negative_fails_zero_accepted_witness:
  "QLearningAgent_init 1024 (- 1) 2 (1 / 2) (1 / 10) (99 / 100) = Inl ValueError \<and>
   QLearningAgent_init 1024 2 (- 1) (1 / 2) (1 / 10) (99 / 100) = Inl ValueError \<and>
   (\<exists>a. QLearningAgent_init 0 3 0 (1 / 2) (1 / 10) (99 / 100) = Inr a \<and> table_shape a \<and>
        concat (Q a) = [] \<and> last_state a = None)"
  using C7_init_negative_fails_zero_accepted [of "- 1" 2 1024 "1 / 2" "1 / 10" "99 / 100"]
    C7_init_negative_fails_zero_accepted [of 2 "- 1" 1024 "1 / 2" "1 / 10" "99 / 100"]
    C7_init_negative_fails_zero_accepted [of 3 0 0 "1 / 2" "1 / 10" "99 / 100"]
  by (auto simp: itemsize_def max_intp_def)

subsection \<open>Observations out of range\<close>

text \<open>
  C6, as the spec states it, fails: \<open>begin_episode\<close> stores the observations 7 and -1
  in an agent of two states, and \<open>learn\<close> with the observation -1 reads the last row of
  the table and returns normally.
\<close>

theorem C6_counterexample:
  "begin_episode 7 example_agent = example_agent\<lparr>last_state := Some 7\<rparr> \<and>
   begin_episode (- 1) example_agent = example_agent\<lparr>last_state := Some (- 1)\<rparr> \<and>
   learn 1 (- 1) example_agent =
     Inr (example_agent\<lparr>Q := [[1, 15 / 4], [5, 3]], last_state := Some (- 1)\<rparr>)"
  by (simp add: begin_episode_def learn_def example_agent_def index2_def norm_index_def)

text \<open>
  C6, amended. No method checks an observation. \<open>begin_episode\<close> stores any integer as
  the cursor. For an agent in an episode (table of the declared shape, valid cursor,
  recorded action in range), \<open>learn\<close> with an observation in \<open>[-num_states, 0)\<close> returns
  normally: it takes the maximum of row \<open>observation + num_states\<close>, counted from the end,
  and stores the negative observation as the cursor. With an observation below
  \<open>-num_states\<close> or at least \<open>num_states\<close> it fails in the array access, and the agent is
  left as it was: the exception is \<^verbatim>\<open>IndexError\<close> whenever the observation is a machine
  integer (from \<open>-2 ^ 63\<close> to \<open>2 ^ 63 - 1\<close>), \<^verbatim>\<open>OverflowError\<close> from \<open>2 ^ 63\<close> to
  \<open>2 ^ 64 - 1\<close>, and one of these two for any other observation.
\<close>

theorem C6_no_bounds_check:
  assumes shape: "table_shape a"
    and ls: "last_state a = Some s" "0 \<le> s" "s < num_states a"
    and la: "last_action a = Some k" "0 \<le> k" "k < num_actions a"
  shows "begin_episode obs a = a\<lparr>last_state := Some obs\<rparr> \<and>
         (- num_states a \<le> obs \<and> obs < 0 \<longrightarrow>
            learn r obs a =
              Inr (a\<lparr>Q := (Q a)[nat s := (Q a ! nat s)[nat k :=
                          Q a ! nat s ! nat k +
                            learning_rate a *
                              (r + discount_factor a * Max (set (Q a ! nat (obs + num_states a)))
                                 - Q a ! nat s ! nat k)]],
                     last_state := Some obs\<rparr>)) \<and>
         (obs < - num_states a \<or> num_states a \<le> obs \<longrightarrow>
            (learn r obs a = Inl IndexError \<or> learn r obs a = Inl OverflowError) \<and>
            (- max_intp - 1 \<le> obs \<and> obs \<le> max_intp \<longrightarrow> learn r obs a = Inl IndexError) \<and>
            (max_intp < obs \<and> obs \<le> 2 * max_intp + 1 \<longrightarrow> learn r obs a = Inl OverflowError))"
proof (intro conjI impI)
  let ?n = "length (Q a)"
  have len: "?n = nat (num_states a)" and ns: "0 \<le> num_states a"
    using shape by (simp_all add: table_shape_def)
  show "begin_episode obs a = a\<lparr>last_state := Some obs\<rparr>"
    by (simp add: begin_episode_def)
  have fail: "learn r obs a = Inl e" if "norm_index ?n obs = Inl e" for e
    using that by (simp add: learn_def la)
  have out: "obs < - int ?n \<or> int ?n \<le> obs" if "obs < - num_states a \<or> num_states a \<le> obs"
    using that len ns by auto
  show "learn r obs a = Inl IndexError \<or> learn r obs a = Inl OverflowError"
    if "obs < - num_states a \<or> num_states a \<le> obs"
    using norm_index_outside(1) [OF out [OF that]] fail by blast
  show "learn r obs a = Inl IndexError"
    if "obs < - num_states a \<or> num_states a \<le> obs" "- max_intp - 1 \<le> obs \<and> obs \<le> max_intp"
    using norm_index_outside(2) [OF out [OF that(1)]] that(2) fail by blast
  show "learn r obs a = Inl OverflowError"
    if "obs < - num_states a \<or> num_states a \<le> obs" "max_intp < obs \<and> obs \<le> 2 * max_intp + 1"
    using norm_index_outside(3) [OF out [OF that(1)]] that(2) fail by blast
  show "learn r obs a =
      Inr (a\<lparr>Q := (Q a)[nat s := (Q a ! nat s)[nat k :=
                  Q a ! nat s ! nat k +
                    learning_rate a *
                      (r + discount_factor a * Max (set (Q a ! nat (obs + num_states a)))
                         - Q a ! nat s ! nat k)]],
             last_state := Some obs\<rparr>)"
    if neg: "- num_states a \<le> obs \<and> obs < 0"
  proof -
    have ix_o: "norm_index ?n obs = Inr (nat (obs + num_states a))"
      using neg len ns norm_index_negative [of ?n obs] by simp
    have o_lt: "nat (obs + num_states a) < ?n" using neg len by auto
    have s_lt: "nat s < ?n" using ls len by auto
    have row_o: "length (Q a ! nat (obs + num_states a)) = nat (num_actions a)"
      and row_s: "length (Q a ! nat s) = nat (num_actions a)"
      using table_shape_row [OF shape] o_lt s_lt by auto
    have ne: "Q a ! nat (obs + num_states a) \<noteq> []" using row_o la by auto
    have ix_s: "norm_index ?n s = Inr (nat s)"
      using ls len by (auto intro: norm_index_in_range)
    have ix_k: "norm_index (length (Q a ! nat s)) k = Inr (nat k)"
      using la row_s by (auto intro: norm_index_in_range)
    have ix_sk: "index2 (Q a) s k = Inr (nat s, nat k)"
      by (rule index2_in_range [OF ix_s ix_k])
    show ?thesis
      by (simp add: learn_def la ls ix_o ix_sk np_max_Max [OF ne] Let_def)
  qed
qed

theorem C6_no_bounds_check_witness:
  "learn 1 (- 1) example_agent =
     Inr (example_agent\<lparr>Q := [[1, 15 / 4], [5, 3]], last_state := Some (- 1)\<rparr>) \<and>
   learn 1 2 example_agent = Inl IndexError \<and>
   learn 1 (- 3) example_agent = Inl IndexError \<and>
   learn 1 9223372036854775808 example_agent = Inl OverflowError"
proof -
  have h: "last_state example_agent = Some 0" "(0::int) \<le> 0" "0 < num_states example_agent"
    "last_action example_agent = Some 1" "(0::int) \<le> 1" "1 < num_actions example_agent"
    by (simp_all add: example_agent_def)
  note inst = C6_no_bounds_check [OF table_shape_example h]
  have "learn 1 2 example_agent = Inl IndexError" "learn 1 (- 3) example_agent = Inl IndexError"
    "learn 1 9223372036854775808 example_agent = Inl OverflowError"
    using inst [of 2 1] inst [of "- 3" 1] inst [of 9223372036854775808 1]
    by (simp_all add: example_agent_def max_intp_def)
  moreover have "learn 1 (- 1) example_agent =
     Inr (example_agent\<lparr>Q := [[1, 15 / 4], [5, 3]], last_state := Some (- 1)\<rparr>)"
    using inst [of "- 1" 1] by (simp add: example_agent_def)
  ultimately show ?thesis by simp
qed

subsection \<open>Calls before the first episode\<close>

text \<open>
  C4, as the spec states it, fails: on the fresh agent of two actions and three states,
  \<open>act\<close> returns action 0 in evaluation mode and in training mode, and a \<open>learn\<close> after
  that \<open>act\<close> returns normally and overwrites both cells of row 0.
\<close>

theorem C4_counterexample:
  "QLearningAgent_init 1024 2 3 (1 / 2) (1 / 10) (99 / 100) = Inr fresh_agent \<and>
   act lcg (fresh_agent\<lparr>eval_mode := True\<rparr>, 7) =
     (Inr 0, fresh_agent\<lparr>eval_mode := True, last_action := Some 0\<rparr>, 7) \<and>
   act lcg (fresh_agent, 500) = (Inr 0, fresh_agent\<lparr>last_action := Some 0\<rparr>, lcg_next 500) \<and>
   learn 1 2 (fresh_agent\<lparr>last_action := Some 0\<rparr>) =
     Inr (fresh_agent\<lparr>last_action := Some 0, Q := [[1 / 2, 1 / 2], [0, 0], [0, 0]],
                      last_state := Some 2\<rparr>)"
  by (simp add: QLearningAgent_init_def np_zeros_def max_intp_def itemsize_def
      numeral_3_eq_3 numeral_2_eq_2 fresh_agent_def
      act_def greedy_action_def epsilon_greedy_action_def lcg_def lcg_random_def
      learn_def norm_index_def)

text \<open>
  C4, amended. On a fresh agent with at least one state and one action, on which
  \<open>begin_episode\<close> was never called, \<open>act\<close> does not fail. In evaluation mode it returns
  action 0: the cursor \<^verbatim>\<open>None\<close> indexes the table as a new axis, and 0 is the first
  maximum of the whole table of zeros. In training mode it returns an action in
  \<open>[0, num_actions)\<close> (0 or a random one). The action is recorded as \<open>last_action\<close> and
  nothing else changes. \<open>learn\<close>, called before any \<open>act\<close>, fails with
  \<^verbatim>\<open>AttributeError\<close>, since \<open>last_action\<close> was never assigned.
\<close>

theorem C4_fresh_agent_acts:
  assumes init: "QLearningAgent_init heap n_actions n_states lr er df = Inr a"
    and pos: "0 < n_actions" "0 < n_states"
    and rng: "randint_range rng"
  shows "act rng (a\<lparr>eval_mode := True\<rparr>, g) =
           (Inr 0, a\<lparr>eval_mode := True, last_action := Some 0\<rparr>, g) \<and>
         (\<exists>k g'. act rng (a, g) = (Inr k, a\<lparr>last_action := Some k\<rparr>, g') \<and>
                 0 \<le> k \<and> k < n_actions) \<and>
         learn r obs a = Inl AttributeError"
proof -
  note fresh = init_fresh [OF init]
  have ne: "concat (Q a) \<noteq> []" and zero: "\<forall>x\<in>set (concat (Q a)). x = 0"
    using pos by (auto simp: fresh(1))
  have gr: "greedy_action (a\<lparr>eval_mode := b\<rparr>) = Inr 0" for b
    using np_argmax_all_zero [OF ne zero] by (simp add: greedy_action_def fresh(2))
  have ev: "act rng (a\<lparr>eval_mode := True\<rparr>, g) =
      (Inr 0, a\<lparr>eval_mode := True, last_action := Some 0\<rparr>, g)"
    by (simp add: act_def gr)
  have gr': "greedy_action a = Inr 0" using gr [of "eval_mode a"] by simp
  obtain u g1 where draw: "random_fn rng g = (u, g1)" by (cases "random_fn rng g")
  have tr: "\<exists>k g'. act rng (a, g) = (Inr k, a\<lparr>last_action := Some k\<rparr>, g') \<and> 0 \<le> k \<and> k < n_actions"
  proof (cases "u < exploration_rate a")
    case True
    from rng pos(1) obtain k where k: "fst (randint_fn rng n_actions g1) = Inr k" "0 \<le> k" "k < n_actions"
      unfolding randint_range_def by (metis (full_types))
    obtain g2 where "randint_fn rng n_actions g1 = (Inr k, g2)"
      using k(1) by (cases "randint_fn rng n_actions g1") auto
    then have "act rng (a, g) = (Inr k, a\<lparr>last_action := Some k\<rparr>, g2)"
      using True by (simp add: act_def epsilon_greedy_action_def draw fresh)
    then show ?thesis using k by blast
  next
    case False
    then have "act rng (a, g) = (Inr 0, a\<lparr>last_action := Some 0\<rparr>, g1)"
      by (simp add: act_def epsilon_greedy_action_def draw fresh gr')
    then show ?thesis using pos by auto
  qed
  have "learn r obs a = Inl AttributeError"
    by (simp add: learn_def fresh(3))
  with ev tr show ?thesis by blast
qed

theorem C4_fresh_agent_acts_witness:
  "act lcg (fresh_agent\<lparr>eval_mode := True\<rparr>, 7) =
     (Inr 0, fresh_agent\<lparr>eval_mode := True, last_action := Some 0\<rparr>, 7) \<and>
   (\<exists>k g'. act lcg (fresh_agent, 7) = (Inr k, fresh_agent\<lparr>last_action := Some k\<rparr>, g') \<and>
           0 \<le> k \<and> k < 2) \<and>
   learn 1 0 fresh_agent = Inl AttributeError"
proof -
  have "QLearningAgent_init 1024 2 3 (1 / 2) (1 / 10) (99 / 100) = Inr fresh_agent"
    by (rule init_fresh_agent)
  from C4_fresh_agent_acts [OF this _ _ randint_range_lcg, of 7 1 0]
  show ?thesis by simp
qed

subsection \<open>Several agents and the one generator\<close>

text \<open>
  A call on one agent leaves the other agent as it is, and a call that is neither
  \<^verbatim>\<open>seed\<close> nor \<^verbatim>\<open>act\<close> leaves the generator as it is and returns no action.
\<close>

lemma step_quiet:
  assumes "quiet c" "step rng c (a, g) = (res, a', g')"
  shows "g' = g" and "res = Inr r \<Longrightarrow> r = None"
  using assms by (cases c; auto simp: quiet_def step_def split: sum.splits)+

lemma call_on_same:
  assumes "step rng c (agent_of w p, generator p) = (res, a', g')"
  shows "\<exists>p'. call_on rng w c p = (res, p') \<and> agent_of w p' = a' \<and> generator p' = g'"
  using assms by (cases w) (auto simp: call_on_def agent_of_def)

lemma call_on_other:
  assumes "w' \<noteq> w" "call_on rng w' c p = (res, p')"
  shows "agent_of w p' = agent_of w p"
  using assms by (cases w; cases w') (auto simp: call_on_def agent_of_def split: prod.splits)

lemma call_on_quiet:
  assumes "quiet c" "call_on rng w' c p = (res, p')"
  shows "generator p' = generator p" and "res = Inr r \<Longrightarrow> r = None"
proof -
  obtain res0 a0 g0 where st: "step rng c (agent_of w' p, generator p) = (res0, a0, g0)"
    by (cases "step rng c (agent_of w' p, generator p)") auto
  from call_on_same [OF st] assms(2) have eq: "res = res0" "generator p' = g0" by auto
  from step_quiet [OF assms(1) st] eq show "generator p' = generator p" by simp
  from step_quiet(2) [OF assms(1) st] eq show "res = Inr r \<Longrightarrow> r = None" by simp
qed

lemma part_of_Cons:
  "part_of w (x # xs) = (if fst x = w then snd x # part_of w xs else part_of w xs)"
  by (simp add: part_of_def)

lemma run_alone_among_quiet:
  assumes "others_quiet w sched" "run_process rng sched p = (acts, None, p')"
  shows "run rng (part_of w sched) (agent_of w p, generator p) =
           (part_of w acts, None, agent_of w p', generator p')"
  using assms
proof (induction sched arbitrary: p acts)
  case Nil
  then show ?case by (simp add: part_of_def)
next
  case (Cons wc rest)
  obtain res p1 where co: "call_on rng (fst wc) (snd wc) p = (res, p1)"
    by (cases "call_on rng (fst wc) (snd wc) p") auto
  obtain acts1 fin where rp: "run_process rng rest p1 = (acts1, fin)"
    by (cases "run_process rng rest p1") auto
  from Cons.prems(2) co obtain r where res: "res = Inr r"
    by (cases res) auto
  with Cons.prems(2) co rp have fin: "fin = (None, p')"
    and acts: "acts = (case r of None \<Rightarrow> acts1 | Some k \<Rightarrow> (fst wc, k) # acts1)"
    by auto
  have oq: "others_quiet w rest" and here: "fst wc = w \<or> quiet (snd wc)"
    using Cons.prems(1) by (simp_all add: others_quiet_def)
  from Cons.IH [OF oq] rp fin
  have IH: "run rng (part_of w rest) (agent_of w p1, generator p1) =
      (part_of w acts1, None, agent_of w p', generator p')"
    by simp
  show ?case
  proof (cases "fst wc = w")
    case True
    obtain res0 a0 g0 where st: "step rng (snd wc) (agent_of w p, generator p) = (res0, a0, g0)"
      by (cases "step rng (snd wc) (agent_of w p, generator p)") auto
    from call_on_same [OF st] co True have eq: "res0 = res" "agent_of w p1 = a0" "generator p1 = g0"
      by auto
    have pa: "part_of w acts = (case r of None \<Rightarrow> part_of w acts1 | Some k \<Rightarrow> k # part_of w acts1)"
      using True by (simp add: acts part_of_def split: option.splits)
    show ?thesis
      using True st eq res IH pa by (simp add: part_of_Cons)
  next
    case False
    with here have q: "quiet (snd wc)" by simp
    from call_on_quiet [OF q co] res have g: "generator p1 = generator p" and r: "r = None"
      by auto
    from call_on_other [OF False co] have a: "agent_of w p1 = agent_of w p" .
    show ?thesis
      using False IH g a r acts by (simp add: part_of_Cons)
  qed
qed

lemma run_process_single:
  "run_process rng (map (Pair w) cs) p = (acts, err, p') \<Longrightarrow>
   run rng cs (agent_of w p, generator p) = (map snd acts, err, agent_of w p', generator p') \<and>
   (\<forall>w'. w' \<noteq> w \<longrightarrow> agent_of w' p' = agent_of w' p)"
proof (induction cs arbitrary: p acts err p')
  case Nil
  then show ?case by simp
next
  case (Cons c cs)
  obtain res0 a0 g0 where st: "step rng c (agent_of w p, generator p) = (res0, a0, g0)"
    by (cases "step rng c (agent_of w p, generator p)") auto
  from call_on_same [OF st] obtain p1 where co: "call_on rng w c p = (res0, p1)"
    and eq: "agent_of w p1 = a0" "generator p1 = g0" by blast
  have oth: "agent_of w' p1 = agent_of w' p" if "w' \<noteq> w" for w'
    using call_on_other [OF _ co, of w'] that by auto
  show ?case
  proof (cases res0)
    case (Inl e)
    with Cons.prems co st eq oth show ?thesis by auto
  next
    case (Inr r)
    obtain acts1 err1 p2 where rp: "run_process rng (map (Pair w) cs) p1 = (acts1, err1, p2)"
      by (cases "run_process rng (map (Pair w) cs) p1") auto
    from Cons.IH [OF rp] eq
    have IH: "run rng cs (a0, g0) = (map snd acts1, err1, agent_of w p2, generator p2)"
      and IHo: "\<forall>w'. w' \<noteq> w \<longrightarrow> agent_of w' p2 = agent_of w' p1"
      by auto
    from Cons.prems co Inr rp have fin: "err = err1" "p' = p2"
      and acts: "acts = (case r of None \<Rightarrow> acts1 | Some k \<Rightarrow> (w, k) # acts1)"
      by (auto split: option.splits)
    show ?thesis
      using st Inr IH IHo oth fin acts by (auto split: option.splits)
  qed
qed

lemma run_after_seed:
  "\<exists>acts err a'. (\<forall>g. \<exists>g'. run rng (Seed s # cs) (a, g) = (acts, err, a', g'))"
proof (cases "seed_fn rng s")
  case (Inl e)
  then have "run rng (Seed s # cs) (a, g) = ([], Some e, a, g)" for g
    by (simp add: step_def seed_def)
  then show ?thesis by blast
next
  case (Inr g0)
  then have "run rng (Seed s # cs) (a, g) = run rng (Seed s # cs) (a, g0)" for g
    by (simp add: step_def seed_def)
  then show ?thesis by (metis prod_cases4)
qed

text \<open>The definitions that evaluate a program on the replayed generator.\<close>

lemmas replay_eval = call_on_def step_def seed_def begin_episode_def act_def
  epsilon_greedy_action_def greedy_action_def numpy_replay_def replay_seed_def mt_outputs_def
  replay_random_def replay_randint_def gen_mask.simps max_intp_def fresh_agent_def two_fresh_def
  norm_index_def numeral_2_eq_2 [symmetric]

subsection \<open>Seeding\<close>

text \<open>
  C3, as the spec states it, fails: two fresh agents of two actions and three states,
  both seeded with 7 and both given \<open>begin_episode(0)\<close> and \<open>act()\<close>, call by call in turn,
  return the actions 1 and 0. The first agent draws 0.0763..., explores and draws action
  1; the second agent draws the next number of the same stream, 0.3189..., and takes the
  greedy action 0.
\<close>

theorem C3_counterexample:
  "QLearningAgent_init 1024 2 3 (1 / 2) (1 / 10) (99 / 100) = Inr fresh_agent \<and>
   fst (run_process numpy_replay
          [(Agent1, Seed 7), (Agent2, Seed 7), (Agent1, BeginEpisode 0), (Agent2, BeginEpisode 0),
           (Agent1, Act), (Agent2, Act)]
          two_fresh) = [(Agent1, 1), (Agent2, 0)]"
  by (simp add: init_fresh_agent replay_eval)

text \<open>
  C3, amended. Two agents in the same state, as two freshly constructed agents with
  identical hyperparameters are, each seeded with the same value and then driven with the
  identical script, produce the same action sequence, the same exception if any, and the
  same final agent, so identical tables, when the two runs are made one after the other:
  the whole run of the first agent, its \<open>seed\<close> call first, and then the whole run of the
  second. Nothing is promised for runs whose calls are interleaved.
\<close>

theorem C3_runs_in_turn_agree:
  assumes same: "agent1 p = agent2 p"
    and r1: "run_process rng (map (Pair Agent1) (Seed s # script)) p = (acts1, err1, p1)"
    and r2: "run_process rng (map (Pair Agent2) (Seed s # script)) p1 = (acts2, err2, p2)"
  shows "map snd acts1 = map snd acts2 \<and> err1 = err2 \<and> agent1 p2 = agent2 p2 \<and>
         Q (agent1 p2) = Q (agent2 p2)"
proof -
  let ?a = "agent1 p"
  from run_process_single [OF r1]
  have one: "run rng (Seed s # script) (?a, generator p) = (map snd acts1, err1, agent1 p1, generator p1)"
    and keep2: "agent2 p1 = agent2 p"
    by (auto simp: agent_of_def)
  from run_process_single [OF r2]
  have two: "run rng (Seed s # script) (agent2 p1, generator p1) =
      (map snd acts2, err2, agent2 p2, generator p2)"
    and keep1: "agent1 p2 = agent1 p1"
    by (auto simp: agent_of_def)
  from run_after_seed [of rng s script ?a] obtain acts err a' where
    det: "\<forall>g. \<exists>g'. run rng (Seed s # script) (?a, g) = (acts, err, a', g')"
    by blast
  from det [rule_format, of "generator p"] one
  have "map snd acts1 = acts" "err1 = err" "agent1 p1 = a'" by auto
  moreover from det [rule_format, of "generator p1"] two keep2 same
  have "map snd acts2 = acts" "err2 = err" "agent2 p2 = a'" by auto
  ultimately show ?thesis using keep1 by simp
qed

theorem C3_runs_in_turn_agree_witness:
  "map snd (fst (run_process numpy_replay
      (map (Pair Agent1) [Seed 7, BeginEpisode 0, Act, Learn 1 1, Act]) two_fresh)) = [1, 0] \<and>
   map snd (fst (run_process numpy_replay
      (map (Pair Agent2) [Seed 7, BeginEpisode 0, Act, Learn 1 1, Act])
      (snd (snd (run_process numpy_replay
         (map (Pair Agent1) [Seed 7, BeginEpisode 0, Act, Learn 1 1, Act]) two_fresh))))) = [1, 0]"
proof -
  let ?cs = "[Seed 7, BeginEpisode 0, Act, Learn 1 1, Act]"
  obtain acts1 err1 p1 where r1: "run_process numpy_replay (map (Pair Agent1) ?cs) two_fresh = (acts1, err1, p1)"
    by (cases "run_process numpy_replay (map (Pair Agent1) ?cs) two_fresh") auto
  obtain acts2 err2 p2 where r2: "run_process numpy_replay (map (Pair Agent2) ?cs) p1 = (acts2, err2, p2)"
    by (cases "run_process numpy_replay (map (Pair Agent2) ?cs) p1") auto
  have same: "agent1 two_fresh = agent2 two_fresh" by (simp add: two_fresh_def)
  have first: "map snd (fst (run_process numpy_replay (map (Pair Agent1) ?cs) two_fresh)) = [1, 0]"
    by (simp add: replay_eval learn_def norm_index_def index2_def)
  from C3_runs_in_turn_agree [OF same r1 r2] have "map snd acts1 = map snd acts2" by simp
  with first r1 r2 show ?thesis by simp
qed

text \<open>
  C5, as the spec states it, fails: in a process of two fresh agents, the first agent
  seeded with 7 returns action 1 from its \<open>act\<close>; when the second agent is seeded with 8
  in between, the same \<open>act\<close> of the first agent returns action 0, because it draws
  0.8734... from the stream of the seed 8.
\<close>

theorem C5_counterexample:
  "fst (run_process numpy_replay
          [(Agent1, Seed 7), (Agent1, BeginEpisode 0), (Agent1, Act)] two_fresh) = [(Agent1, 1)] \<and>
   fst (run_process numpy_replay
          [(Agent1, Seed 7), (Agent2, Seed 8), (Agent1, BeginEpisode 0), (Agent1, Act)] two_fresh)
     = [(Agent1, 0)]"
  by (simp add: replay_eval)

text \<open>
  C5, amended. No agent owns a generator: the random source is the one generator of the
  module, shared by all agents of a process. \<open>seed\<close> called on any agent with an accepted
  seed changes no agent and puts the shared generator into the state of that seed. The
  run of an agent among the calls of another agent is the run it has alone (the same
  actions, the same final agent and the same final generator) whenever the program ends
  without exception and the other agent makes no \<open>seed\<close> and no \<open>act\<close> call in it.
\<close>

theorem C5_one_shared_generator:
  "(seed_fn rng s = Inr g0 \<longrightarrow> call_on rng w (Seed s) p = (Inr None, p\<lparr>generator := g0\<rparr>)) \<and>
   (others_quiet w sched \<and> run_process rng sched p = (acts, None, p') \<longrightarrow>
      run rng (part_of w sched) (agent_of w p, generator p) =
        (part_of w acts, None, agent_of w p', generator p'))"
proof (intro conjI impI)
  assume "seed_fn rng s = Inr g0"
  then show "call_on rng w (Seed s) p = (Inr None, p\<lparr>generator := g0\<rparr>)"
    by (cases w) (simp_all add: call_on_def step_def seed_def)
next
  assume "others_quiet w sched \<and> run_process rng sched p = (acts, None, p')"
  then show "run rng (part_of w sched) (agent_of w p, generator p) =
      (part_of w acts, None, agent_of w p', generator p')"
    using run_alone_among_quiet by blast
qed

theorem C5_one_shared_generator_witness:
  "call_on numpy_replay Agent2 (Seed 8) two_fresh =
     (Inr None, two_fresh\<lparr>generator := [3751350723, 47736148, 4159850481, 1028385129, 3733162117, 1621423066]\<rparr>) \<and>
   run numpy_replay [Seed 7, BeginEpisode 0, Act] (fresh_agent, []) =
     ([1], None, fresh_agent\<lparr>last_state := Some 0, last_action := Some 1\<rparr>,
      [1369975286, 1882953283, 4201435347])"
proof -
  let ?sched = "[(Agent1, Seed 7), (Agent2, BeginEpisode 1), (Agent1, BeginEpisode 0),
                 (Agent2, SetEvalMode True), (Agent1, Act)]"
  let ?p' = "\<lparr>agent1 = fresh_agent\<lparr>last_state := Some 0, last_action := Some 1\<rparr>,
             agent2 = fresh_agent\<lparr>last_state := Some 1, eval_mode := True\<rparr>,
             generator = [1369975286, 1882953283, 4201435347 :: nat]\<rparr>"
  have sd: "seed_fn numpy_replay 8 = Inr (mt_outputs 8)"
    by (simp add: numpy_replay_def replay_seed_def)
  have oq: "others_quiet Agent1 ?sched"
    by (simp add: others_quiet_def quiet_def)
  have rp: "run_process numpy_replay ?sched two_fresh = ([(Agent1, 1)], None, ?p')"
    by (simp add: replay_eval)
  from C5_one_shared_generator
         [where rng = numpy_replay and s = 8 and ?g0.0 = "mt_outputs 8" and w = Agent2
            and p = two_fresh, THEN conjunct1] sd
  have "call_on numpy_replay Agent2 (Seed 8) two_fresh =
      (Inr None, two_fresh\<lparr>generator := mt_outputs 8\<rparr>)"
    by simp
  moreover have "run numpy_replay (part_of Agent1 ?sched) (agent_of Agent1 two_fresh, generator two_fresh) =
      (part_of Agent1 [(Agent1, 1)], None, agent_of Agent1 ?p', generator ?p')"
    by (rule mp [OF C5_one_shared_generator
          [where rng = numpy_replay and w = Agent1 and p = two_fresh and sched = ?sched
             and acts = "[(Agent1, 1)]" and p' = ?p', THEN conjunct2]])
       (rule conjI [OF oq rp])
  ultimately show ?thesis
    by (simp add: part_of_def agent_of_def two_fresh_def mt_outputs_def)
qed

end
